theory Spec2Isabelle
  imports Complex_Main
begin

section \<open>JavaScript values used by the dashboard\<close>

text \<open>
  The leaderboard page (\<^verbatim>\<open>Leaderboard.tsx\<close>) and the user detail page
  (\<^verbatim>\<open>User.tsx\<close>) are React components. Their state hooks become records, their
  event handlers and asynchronous functions become functions from the state (and the
  outcome of the network call) to the new state, and what they send to \<^verbatim>\<open>fetch\<close>
  becomes a value.
\<close>

subsection \<open>JSON\<close>

text \<open>What \<^verbatim>\<open>response.json()\<close> can produce. Numbers are finite IEEE doubles, all of
  which are rationals, so they are embedded in the reals.\<close>

datatype json =
    JNull
  | JBool bool
  | JNum real
  | JStr string
  | JArr "json list"
  | JObj "(string \<times> json) list"

subsection \<open>Outcome of a fetch followed by reading the body\<close>

text \<open>
  \<^verbatim>\<open>await fetch(url)\<close> either rejects (\<open>NetworkError\<close>) or yields a response with its
  \<^verbatim>\<open>ok\<close> flag and status; \<^verbatim>\<open>await response.json()\<close> then either rejects
  (body \<open>None\<close>) or yields the data, here already at the type the caller declares.
\<close>

datatype 'a fetch_result =
    NetworkError
  | Response bool nat "'a option"

subsection \<open>Objects with string keys\<close>

text \<open>
  An ordinary object is the list of its own enumerable string-keyed properties in the order
  \<^verbatim>\<open>Object.entries\<close> and \<^verbatim>\<open>for-in\<close> enumerate them: first the keys that are array
  indices (canonical decimal numerals below \<open>2^32 - 1\<close>) in ascending numeric order, then
  every other key in the order it was first assigned. Keys of an object are distinct.
\<close>

type_synonym 'v js_object = "(string \<times> 'v) list"

definition is_object :: "'v js_object \<Rightarrow> bool" where
  "is_object obj = distinct (map fst obj)"

definition is_digit :: "char \<Rightarrow> bool" where
  "is_digit c = (c \<in> set ''0123456789'')"

definition digit_value :: "char \<Rightarrow> nat" where
  "digit_value c = of_char c - 48"

definition decimal_value :: "string \<Rightarrow> nat" where
  "decimal_value s = foldl (\<lambda>a c. 10 * a + digit_value c) 0 s"

definition array_index :: "string \<Rightarrow> nat option" where
  "array_index k =
     (if k \<noteq> [] \<and> list_all is_digit k \<and> (k = ''0'' \<or> hd k \<noteq> CHR ''0'')
         \<and> decimal_value k < 2 ^ 32 - 1
      then Some (decimal_value k) else None)"

text \<open>\<^verbatim>\<open>obj[key]\<close> for an own property; \<open>None\<close> is \<^verbatim>\<open>undefined\<close>.\<close>

definition obj_get :: "'v js_object \<Rightarrow> string \<Rightarrow> 'v option" where
  "obj_get obj k = map_of obj k"

text \<open>A key the object does not have yet takes its place in the enumeration order.\<close>

fun obj_insert :: "string \<Rightarrow> 'v \<Rightarrow> 'v js_object \<Rightarrow> 'v js_object" where
  "obj_insert k v [] = [(k, v)]"
| "obj_insert k v ((k', v') # rest) =
     (case array_index k of
        None \<Rightarrow> (k', v') # obj_insert k v rest
      | Some n \<Rightarrow>
          (case array_index k' of
             None \<Rightarrow> (k, v) # (k', v') # rest
           | Some m \<Rightarrow>
               if m < n then (k', v') # obj_insert k v rest
               else (k, v) # (k', v') # rest))"

text \<open>\<^verbatim>\<open>obj[key] = v\<close>: an existing key keeps its place and takes the new value.\<close>

definition obj_set :: "'v js_object \<Rightarrow> string \<Rightarrow> 'v \<Rightarrow> 'v js_object" where
  "obj_set obj k v =
     (if k \<in> fst ` set obj
      then map (\<lambda>(k', v'). if k' = k then (k', v) else (k', v')) obj
      else obj_insert k v obj)"

definition Object_entries :: "'v js_object \<Rightarrow> (string \<times> 'v) list" where
  "Object_entries obj = obj"

definition Object_fromEntries :: "(string \<times> 'v) list \<Rightarrow> 'v js_object" where
  "Object_fromEntries es = fold (\<lambda>(k, v) obj. obj_set obj k v) es []"

subsection \<open>Numbers as strings\<close>

text \<open>\<^verbatim>\<open>Number.prototype.toString\<close> on a non-negative integer: its decimal numeral.\<close>

definition digit_char :: "nat \<Rightarrow> char" where
  "digit_char d = ''0123456789'' ! d"

fun toString :: "nat \<Rightarrow> string" where
  "toString n =
     (if n < 10 then [digit_char n] else toString (n div 10) @ [digit_char (n mod 10)])"

declare toString.simps [simp del]

subsection \<open>URLSearchParams\<close>

text \<open>
  A \<^verbatim>\<open>URLSearchParams\<close> is the list of its name-value pairs; \<^verbatim>\<open>append\<close> adds one
  at the end and \<^verbatim>\<open>getAll\<close> reads the values under a name, in order. Its
  \<^verbatim>\<open>toString\<close> percent-encodes the same list, which the server decodes again.
\<close>

type_synonym URLSearchParams = "(string \<times> string) list"

definition append_param :: "URLSearchParams \<Rightarrow> string \<Rightarrow> string \<Rightarrow> URLSearchParams" where
  "append_param q name v = q @ [(name, v)]"

definition getAll :: "URLSearchParams \<Rightarrow> string \<Rightarrow> string list" where
  "getAll q name = map snd (filter (\<lambda>p. fst p = name) q)"

section \<open>Leaderboard page\<close>

subsection \<open>State\<close>

text \<open>\<^verbatim>\<open>interface Location { text: string, value: string }\<close>\<close>

record Location =
  opt_text :: string
  opt_value :: string

text \<open>\<^verbatim>\<open>SortOrder = 'descend' | 'ascend' | null\<close>; \<open>None\<close> is \<^verbatim>\<open>null\<close>.\<close>

datatype SortOrder = descend | ascend

definition SortOrder_string :: "SortOrder \<Rightarrow> string" where
  "SortOrder_string ord = (case ord of descend \<Rightarrow> ''descend'' | ascend \<Rightarrow> ''ascend'')"

text \<open>\<^verbatim>\<open>FilterValue\<close>: the selected values of one column, which \<^verbatim>\<open>fetchUsers\<close>
  reads as \<^verbatim>\<open>string[]\<close>.\<close>

type_synonym FilterValue = "string list"

text \<open>\<^verbatim>\<open>TablePaginationConfig\<close>: the three fields the page uses, each optional.\<close>

record TablePaginationConfig =
  current :: "nat option"
  pageSize :: "nat option"
  total_count :: "nat option"

text \<open>A row of the table: the user object of the response, field by field.\<close>

type_synonym LeaderboardUser = "json js_object"

text \<open>\<^verbatim>\<open>LeaderboardStatsData\<close>; the two nested objects have fields of the same
  names, told apart here by a prefix.\<close>

record TopSponsored =
  sponsored_username :: string
  sponsored_avatar_url :: string
  total_sponsors :: nat

record TopSponsoring =
  sponsoring_username :: string
  sponsoring_avatar_url :: string
  total_sponsoring :: nat

record LeaderboardStatsData =
  total_users :: nat
  total_sponsorships :: nat
  top_sponsored :: TopSponsored
  top_sponsoring :: TopSponsoring

record Leaderboard =
  loading :: bool
  users :: "LeaderboardUser list"
  filters :: "FilterValue option js_object"
  locationFilters :: "Location list"
  sorters :: "SortOrder option js_object"
  leaderboardData :: "LeaderboardStatsData option"
  pagination :: TablePaginationConfig

text \<open>The initial values of the \<^verbatim>\<open>useState\<close> hooks.\<close>

definition initial_Leaderboard :: Leaderboard where
  "initial_Leaderboard =
     \<lparr>loading = False, users = [], filters = [], locationFilters = [], sorters = [],
      leaderboardData = None,
      pagination = \<lparr>current = Some 1, pageSize = Some 10, total_count = Some 0\<rparr>\<rparr>"

subsection \<open>fetchUsers: the request\<close>

text \<open>\<^verbatim>\<open>x || d\<close> on an optional number: \<^verbatim>\<open>undefined\<close> and \<open>0\<close> are falsy.\<close>

definition or_default :: "nat option \<Rightarrow> nat \<Rightarrow> nat" where
  "or_default x d = (case x of None \<Rightarrow> d | Some n \<Rightarrow> if n = 0 then d else n)"

text \<open>
  The first \<^verbatim>\<open>forEach\<close>: a filter whose value is a non-empty array appends one
  parameter per element under the filter's key.
\<close>

definition add_filter :: "string \<times> FilterValue option \<Rightarrow> URLSearchParams \<Rightarrow> URLSearchParams" where
  "add_filter e q =
     (case e of (key, val) \<Rightarrow>
        (case val of
           None \<Rightarrow> q
         | Some vs \<Rightarrow>
             if length vs > 0 then fold (\<lambda>v q'. append_param q' key v) vs q else q))"

text \<open>
  The second \<^verbatim>\<open>forEach\<close>: a sorter whose order is set appends \<^verbatim>\<open>sortField\<close>
  and then \<^verbatim>\<open>sortOrder\<close>.
\<close>

definition add_sorter :: "string \<times> SortOrder option \<Rightarrow> URLSearchParams \<Rightarrow> URLSearchParams" where
  "add_sorter e q =
     (case e of (fld, ord) \<Rightarrow>
        (case ord of
           None \<Rightarrow> q
         | Some ord' \<Rightarrow>
             append_param (append_param q ''sortField'' fld) ''sortOrder'' (SortOrder_string ord')))"

definition queryParams ::
  "TablePaginationConfig \<Rightarrow> FilterValue option js_object \<Rightarrow> SortOrder option js_object
     \<Rightarrow> URLSearchParams" where
  "queryParams currentPagination currentFilters currentSorters =
     fold add_sorter (Object_entries currentSorters)
       (fold add_filter (Object_entries currentFilters)
          [(''page'', toString (or_default (current currentPagination) 1)),
           (''per_page'', toString (or_default (pageSize currentPagination) 10))])"

text \<open>What \<^verbatim>\<open>fetchUsers\<close> passes to \<^verbatim>\<open>fetch\<close>: the endpoint and its parameters.
  \<^verbatim>\<open>apiUrl\<close> comes from a module that is a parameter here.\<close>

record Request =
  endpoint :: string
  searchParams :: URLSearchParams

definition fetchUsers_request ::
  "string \<Rightarrow> TablePaginationConfig \<Rightarrow> FilterValue option js_object
     \<Rightarrow> SortOrder option js_object \<Rightarrow> Request" where
  "fetchUsers_request apiUrl currentPagination currentFilters currentSorters =
     \<lparr>endpoint = apiUrl @ ''/api/users'',
      searchParams = queryParams currentPagination currentFilters currentSorters\<rparr>"

subsection \<open>fetchUsers: the response\<close>

text \<open>The body the code expects: \<^verbatim>\<open>{ users: [], total: number }\<close>.\<close>

record ListUsers =
  data_users :: "LeaderboardUser list"
  data_total :: nat

definition mapEntry :: "string \<times> json \<Rightarrow> string \<times> json" where
  "mapEntry e =
     (case e of (key, val) \<Rightarrow>
        (key, if val = JNull then JStr ''None''
              else if val = JStr ''Organization'' then JStr ''Org'' else val))"

definition mapUser :: "LeaderboardUser \<Rightarrow> LeaderboardUser" where
  "mapUser user = Object_fromEntries (map mapEntry (Object_entries user))"

definition mappedUsers :: "LeaderboardUser list \<Rightarrow> LeaderboardUser list" where
  "mappedUsers us = map mapUser us"

text \<open>
  The state once the call has settled, from the state it settles in (both
  \<^verbatim>\<open>setPagination\<close> calls of the page are functional updates of the previous value).
  A rejected fetch, a response that is not ok and a body that cannot be read all end in
  the \<^verbatim>\<open>catch\<close>, which only logs; \<^verbatim>\<open>finally\<close> clears \<^verbatim>\<open>loading\<close>.
\<close>

definition fetchUsers :: "Leaderboard \<Rightarrow> ListUsers fetch_result \<Rightarrow> Leaderboard" where
  "fetchUsers st res =
     (case res of
        NetworkError \<Rightarrow> st\<lparr>loading := False\<rparr>
      | Response ok status body \<Rightarrow>
          if \<not> ok then st\<lparr>loading := False\<rparr>
          else (case body of
                  None \<Rightarrow> st\<lparr>loading := False\<rparr>
                | Some data \<Rightarrow>
                    st\<lparr>users := mappedUsers (data_users data),
                       pagination := (pagination st)\<lparr>total_count := Some (data_total data)\<rparr>,
                       loading := False\<rparr>))"

subsection \<open>getLocations\<close>

text \<open>
  On a response that is ok and whose body is a string array, every string becomes
  \<^verbatim>\<open>{ text: location, value: location }\<close> and the list replaces
  \<^verbatim>\<open>locationFilters\<close>; the empty \<^verbatim>\<open>catch\<close> leaves the state as it was otherwise.
\<close>

definition locationData :: "string list \<Rightarrow> Location list" where
  "locationData data = map (\<lambda>location. \<lparr>opt_text = location, opt_value = location\<rparr>) data"

definition getLocations :: "Leaderboard \<Rightarrow> string list fetch_result \<Rightarrow> Leaderboard" where
  "getLocations st res =
     (case res of
        NetworkError \<Rightarrow> st
      | Response ok status body \<Rightarrow>
          if \<not> ok then st
          else (case body of
                  None \<Rightarrow> st
                | Some data \<Rightarrow> st\<lparr>locationFilters := locationData data\<rparr>))"

subsection \<open>handleTableChange\<close>

text \<open>\<^verbatim>\<open>SorterResult\<close>: the two fields \<^verbatim>\<open>handleTableChange\<close> reads. A field is a
  key or a path of keys; \<open>None\<close> is \<^verbatim>\<open>undefined\<close>.\<close>

datatype FieldKey = Field string | FieldPath "string list"

record SorterResult =
  field :: "FieldKey option"
  order :: "SortOrder option"

datatype SorterArg = One SorterResult | Many "SorterResult list"

definition sortersArray :: "SorterArg \<Rightarrow> SorterResult list" where
  "sortersArray newSorters = (case newSorters of Many rs \<Rightarrow> rs | One r \<Rightarrow> [r])"

text \<open>\<^verbatim>\<open>Array.prototype.join('.')\<close>\<close>

fun join_dot :: "string list \<Rightarrow> string" where
  "join_dot [] = []"
| "join_dot [x] = x"
| "join_dot (x # y # ys) = x @ ''.'' @ join_dot (y # ys)"

text \<open>Truthiness of \<^verbatim>\<open>s.field\<close>: \<^verbatim>\<open>undefined\<close> and the empty string are falsy,
  every array is truthy.\<close>

definition field_truthy :: "FieldKey option \<Rightarrow> bool" where
  "field_truthy f =
     (case f of None \<Rightarrow> False | Some (Field s) \<Rightarrow> s \<noteq> [] | Some (FieldPath ks) \<Rightarrow> True)"

text \<open>\<^verbatim>\<open>Array.isArray(s.field) ? s.field.join('.') : String(s.field)\<close>\<close>

definition field_string :: "FieldKey option \<Rightarrow> string" where
  "field_string f =
     (case f of
        Some (FieldPath ks) \<Rightarrow> join_dot ks
      | Some (Field s) \<Rightarrow> s
      | None \<Rightarrow> ''undefined'')"

text \<open>One step of the \<^verbatim>\<open>reduce\<close>.\<close>

definition add_formatted ::
  "SorterResult \<Rightarrow> SortOrder option js_object \<Rightarrow> SortOrder option js_object" where
  "add_formatted s acc =
     (if field_truthy (field s) \<and> order s \<noteq> None
      then obj_set acc (field_string (field s)) (order s)
      else acc)"

definition formattedSorters :: "SorterResult list \<Rightarrow> SortOrder option js_object" where
  "formattedSorters sortersArr = fold add_formatted sortersArr []"

definition handleTableChange ::
  "Leaderboard \<Rightarrow> FilterValue option js_object \<Rightarrow> SorterArg \<Rightarrow> Leaderboard" where
  "handleTableChange st newFilters newSorters =
     st\<lparr>sorters := formattedSorters (sortersArray newSorters),
        filters := newFilters,
        pagination := (pagination st)\<lparr>current := Some 1\<rparr>\<rparr>"

text \<open>The effect with dependencies \<^verbatim>\<open>[pagination.current, pagination.pageSize, filters,
  sorters]\<close> calls \<^verbatim>\<open>fetchUsers(pagination, filters, sorters)\<close>; \<^verbatim>\<open>handleTableChange\<close>
  always stores a fresh \<^verbatim>\<open>sorters\<close> object, so the effect runs after it with the
  state it left.\<close>

definition effect_request :: "string \<Rightarrow> Leaderboard \<Rightarrow> Request" where
  "effect_request apiUrl st = fetchUsers_request apiUrl (pagination st) (filters st) (sorters st)"

subsection \<open>Columns\<close>

text \<open>The columns of the table. \<^verbatim>\<open>render\<close>, \<^verbatim>\<open>onCell\<close> and \<^verbatim>\<open>className\<close> only
  affect how a cell looks and are left out; the earnings cell is modelled on its own.\<close>

datatype Sorter = SorterTrue | SorterMultiple nat

record Column =
  title :: string
  dataIndex :: string
  key :: string
  width :: nat
  column_filters :: "Location list option"
  filterSearch :: bool
  sorter :: "Sorter option"
  sortDirections :: "SortOrder list option"

definition columns :: "Location list \<Rightarrow> Column list" where
  "columns locFilters =
     [\<lparr>title = ''Username'', dataIndex = ''username'', key = ''username'', width = 115,
       column_filters = None, filterSearch = False,
       sorter = Some SorterTrue, sortDirections = Some [descend, ascend]\<rparr>,
      \<lparr>title = ''Name'', dataIndex = ''name'', key = ''name'', width = 110,
       column_filters = None, filterSearch = False,
       sorter = Some SorterTrue, sortDirections = Some [descend, ascend]\<rparr>,
      \<lparr>title = ''Type'', dataIndex = ''type'', key = ''type'', width = 70,
       column_filters = Some [\<lparr>opt_text = ''User'', opt_value = ''User''\<rparr>,
                              \<lparr>opt_text = ''Organization'', opt_value = ''Organization''\<rparr>],
       filterSearch = False, sorter = None, sortDirections = None\<rparr>,
      \<lparr>title = ''Gender'', dataIndex = ''gender'', key = ''gender'', width = 85,
       column_filters = Some [\<lparr>opt_text = ''Male'', opt_value = ''Male''\<rparr>,
                              \<lparr>opt_text = ''Female'', opt_value = ''Female''\<rparr>,
                              \<lparr>opt_text = ''Other'', opt_value = ''Other''\<rparr>,
                              \<lparr>opt_text = ''Unknown'', opt_value = ''Unknown''\<rparr>],
       filterSearch = False, sorter = None, sortDirections = None\<rparr>,
      \<lparr>title = ''Location'', dataIndex = ''location'', key = ''location'', width = 110,
       column_filters = Some locFilters, filterSearch = True,
       sorter = None, sortDirections = None\<rparr>,
      \<lparr>title = ''Followers'', dataIndex = ''followers'', key = ''followers'', width = 100,
       column_filters = None, filterSearch = False,
       sorter = Some (SorterMultiple 2), sortDirections = Some [descend, ascend]\<rparr>,
      \<lparr>title = ''Following'', dataIndex = ''following'', key = ''following'', width = 100,
       column_filters = None, filterSearch = False,
       sorter = Some (SorterMultiple 2), sortDirections = Some [descend, ascend]\<rparr>,
      \<lparr>title = ''Repos'', dataIndex = ''public_repos'', key = ''repos'', width = 75,
       column_filters = None, filterSearch = False,
       sorter = Some (SorterMultiple 1), sortDirections = Some [descend, ascend]\<rparr>,
      \<lparr>title = ''Sponsors'', dataIndex = ''total_sponsors'', key = ''sponsors'', width = 100,
       column_filters = None, filterSearch = False,
       sorter = Some (SorterMultiple 2), sortDirections = Some [descend, ascend]\<rparr>,
      \<lparr>title = ''Sponsoring'', dataIndex = ''total_sponsoring'', key = ''sponsoring'',
       width = 110, column_filters = None, filterSearch = False,
       sorter = Some (SorterMultiple 2), sortDirections = Some [descend, ascend]\<rparr>,
      \<lparr>title = ''Earnings (Estimate)'', dataIndex = ''estimated_earnings'', key = ''earnings'',
       width = 165, column_filters = None, filterSearch = False,
       sorter = Some (SorterMultiple 3), sortDirections = Some [descend, ascend]\<rparr>]"

definition sortable_fields :: "Column list \<Rightarrow> string list" where
  "sortable_fields cols = map dataIndex (filter (\<lambda>c. sorter c \<noteq> None) cols)"

definition offered_filters :: "Column list \<Rightarrow> string \<Rightarrow> Location list" where
  "offered_filters cols k =
     (case find (\<lambda>c. key c = k) cols of
        None \<Rightarrow> []
      | Some c \<Rightarrow> (case column_filters c of None \<Rightarrow> [] | Some fs \<Rightarrow> fs))"

subsection \<open>The earnings cell and the statistics loop\<close>

text \<open>\<^verbatim>\<open>Math.round\<close> on a finite number: the nearest integer, a half going up.\<close>

definition Math_round :: "real \<Rightarrow> int" where
  "Math_round x = \<lfloor>x + 1 / 2\<rfloor>"

definition int_string :: "int \<Rightarrow> string" where
  "int_string i = (if i < 0 then ''-'' @ toString (nat (- i)) else toString (nat i))"

text \<open>The earnings cell, from \<^verbatim>\<open>record.estimated_earnings\<close>:
  \<^verbatim>\<open>${Math.round(record.estimated_earnings)}+ USD/mo\<close> after a dollar sign.\<close>

definition earnings_cell :: "real \<Rightarrow> string" where
  "earnings_cell estimated_earnings =
     ''$'' @ int_string (Math_round estimated_earnings) @ ''+ USD/mo''"

text \<open>
  \<^verbatim>\<open>getLeaderboardStats\<close>: the new state and the delay of the timer it sets for its own
  next call, if it sets one. The \<^verbatim>\<open>setTimeout\<close> is the last statement of the
  \<^verbatim>\<open>try\<close> block; the \<^verbatim>\<open>catch\<close> only logs.
\<close>

definition getLeaderboardStats ::
  "Leaderboard \<Rightarrow> LeaderboardStatsData fetch_result \<Rightarrow> Leaderboard \<times> nat option" where
  "getLeaderboardStats st res =
     (case res of
        NetworkError \<Rightarrow> (st, None)
      | Response ok status body \<Rightarrow>
          if \<not> ok then (st, None)
          else (case body of
                  None \<Rightarrow> (st, None)
                | Some data \<Rightarrow> (st\<lparr>leaderboardData := Some data\<rparr>, Some 15000)))"

text \<open>
  The refresh loop that the mount effect starts: it calls \<^verbatim>\<open>getLeaderboardStats\<close>
  once, and every timer that fires calls it again. The list gives the outcome of the
  first, second, ... fetch of the loop; the result is the final state and what the loop
  did, in order. A fetch whose outcome the list does not give has not settled. Nothing
  else calls the function, and each mount of the page starts a loop of its own.
\<close>

datatype StatsEvent = Fetch | SetTimeout nat

fun stats_loop ::
  "Leaderboard \<Rightarrow> LeaderboardStatsData fetch_result list \<Rightarrow> Leaderboard \<times> StatsEvent list" where
  "stats_loop st [] = (st, [Fetch])"
| "stats_loop st (res # rest) =
     (case getLeaderboardStats st res of
        (st', None) \<Rightarrow> (st', [Fetch])
      | (st', Some delay) \<Rightarrow>
          (case stats_loop st' rest of
             (st'', events) \<Rightarrow> (st'', Fetch # SetTimeout delay # events)))"

section \<open>User detail page\<close>

datatype ViewMode = Activity | Sponsorships

text \<open>
  The interval control: \<^verbatim>\<open>Segmented\<close> with the two options of the source, each a
  label and the string it passes to \<^verbatim>\<open>onChange\<close>.
\<close>

definition interval_options :: "(string \<times> string) list" where
  "interval_options = [(''Weekly'', ''W''), (''Monthly'', ''M'')]"

text \<open>
  The state of the page: the route parameter \<^verbatim>\<open>id\<close> (the empty string stands for
  every falsy id, \<^verbatim>\<open>undefined\<close> included), the state hooks, and for the history
  effect the values its dependency array \<^verbatim>\<open>[id, historyInterval]\<close> had when it last
  ran (\<open>None\<close> while it has not run). At run time \<^verbatim>\<open>historyInterval\<close> is a string:
  \<^verbatim>\<open>setHistoryInterval(val as 'W' | 'M')\<close> stores what the control passes, unchecked.
\<close>

record UserPage =
  route_id :: string
  user :: "json option"
  isLoading :: bool
  viewMode :: ViewMode
  historyInterval :: string
  sponsorshipHistory :: "json list"
  history_deps :: "(string \<times> string) option"

text \<open>\<^verbatim>\<open>useState<'W' | 'M'>('W')\<close> and the other initial values.\<close>

definition initial_UserPage :: "string \<Rightarrow> UserPage" where
  "initial_UserPage ident =
     \<lparr>route_id = ident, user = None, isLoading = True, viewMode = Activity,
      historyInterval = ''W'', sponsorshipHistory = [], history_deps = None\<rparr>"

text \<open>\<^verbatim>\<open>fetchHistory\<close>: the URLs it fetches; none when \<^verbatim>\<open>id\<close> is falsy.\<close>

definition fetchHistory :: "string \<Rightarrow> string \<Rightarrow> string \<Rightarrow> string list" where
  "fetchHistory apiUrl ident interval =
     (if ident = [] then []
      else [apiUrl @ ''/user/'' @ ident @ ''/sponsorship-history?interval='' @ interval])"

text \<open>
  \<^verbatim>\<open>useEffect(..., [id, historyInterval])\<close> after a render that reached it: the effect
  runs the first time and whenever a dependency differs from its value at the previous
  run.
\<close>

definition history_effect :: "string \<Rightarrow> UserPage \<Rightarrow> UserPage \<times> string list" where
  "history_effect apiUrl st =
     (if history_deps st = Some (route_id st, historyInterval st) then (st, [])
      else (st\<lparr>history_deps := Some (route_id st, historyInterval st)\<rparr>,
            fetchHistory apiUrl (route_id st) (historyInterval st)))"

text \<open>
  One run of the component function and of its effects. \<^verbatim>\<open>if (!id) return null\<close>
  stands before both \<^verbatim>\<open>useEffect\<close> calls, so a render with a falsy id registers no
  effect and fetches nothing.
\<close>

definition run_component :: "string \<Rightarrow> UserPage \<Rightarrow> UserPage \<times> string list" where
  "run_component apiUrl st = (if route_id st = [] then (st, []) else history_effect apiUrl st)"

text \<open>What makes the page render again: the router gives another \<^verbatim>\<open>id\<close>, one of the
  two \<^verbatim>\<open>Segmented\<close> controls passes a value, or a fetch settles and stores its data.\<close>

datatype UserEvent =
    RouteChange string
  | SetHistoryInterval string
  | SetViewMode ViewMode
  | SetSponsorshipHistory "json list"
  | SetUser json
  | SetIsLoading bool

definition update :: "UserEvent \<Rightarrow> UserPage \<Rightarrow> UserPage" where
  "update e st =
     (case e of
        RouteChange ident \<Rightarrow> st\<lparr>route_id := ident\<rparr>
      | SetHistoryInterval val \<Rightarrow> st\<lparr>historyInterval := val\<rparr>
      | SetViewMode v \<Rightarrow> st\<lparr>viewMode := v\<rparr>
      | SetSponsorshipHistory data \<Rightarrow> st\<lparr>sponsorshipHistory := data\<rparr>
      | SetUser data \<Rightarrow> st\<lparr>user := Some data\<rparr>
      | SetIsLoading b \<Rightarrow> st\<lparr>isLoading := b\<rparr>)"

definition mount :: "string \<Rightarrow> string \<Rightarrow> UserPage \<times> string list" where
  "mount apiUrl ident = run_component apiUrl (initial_UserPage ident)"

text \<open>
  A later render. Because of the early return the component calls fewer hooks for a
  falsy id than for a truthy one; when the id goes from one to the other, React throws
  on the changed number of hooks, no effect runs and nothing is fetched: \<open>None\<close>.
\<close>

definition render :: "string \<Rightarrow> UserEvent \<Rightarrow> UserPage \<Rightarrow> (UserPage \<times> string list) option" where
  "render apiUrl e st =
     (if (route_id st = []) \<noteq> (route_id (update e st) = []) then None
      else Some (run_component apiUrl (update e st)))"

section \<open>Notions the statements use\<close>

text \<open>What the table can report for its columns: a sorter names the \<^verbatim>\<open>dataIndex\<close> of a
  column that has a sorter, or names nothing and has no order; no column is reported
  twice. Filters are an object keyed by column keys.\<close>

definition names_sortable_column :: "Column list \<Rightarrow> SorterResult \<Rightarrow> bool" where
  "names_sortable_column cols s =
     (case field s of
        None \<Rightarrow> order s = None
      | Some (Field d) \<Rightarrow> d \<in> set (sortable_fields cols)
      | Some (FieldPath ks) \<Rightarrow> False)"

definition reported_sorters :: "Column list \<Rightarrow> SorterResult list \<Rightarrow> bool" where
  "reported_sorters cols rs =
     (list_all (names_sortable_column cols) rs
      \<and> distinct (map field (filter (\<lambda>s. field s \<noteq> None) rs)))"

definition reported_filters :: "Column list \<Rightarrow> FilterValue option js_object \<Rightarrow> bool" where
  "reported_filters cols fs = (is_object fs \<and> list_all (\<lambda>e. fst e \<in> set (map key cols)) fs)"

text \<open>The (field, order) pairs the request is to carry: for each reported sorter that
  names a column and whose order is not null, the \<^verbatim>\<open>dataIndex\<close> it names and its
  order as the string the table passes, in the order reported.\<close>

definition ordered_sorters :: "SorterResult list \<Rightarrow> (string \<times> string) list" where
  "ordered_sorters rs =
     List.map_filter
       (\<lambda>s. case order s of
               None \<Rightarrow> None
             | Some ord \<Rightarrow>
                 (case field s of
                    Some (Field d) \<Rightarrow>
                      Some (d, case ord of descend \<Rightarrow> ''descend'' | ascend \<Rightarrow> ''ascend'')
                  | _ \<Rightarrow> None)) rs"

text \<open>The sorters an \<^verbatim>\<open>onChange\<close> argument reports: those of the array, or the
  lone one.\<close>

fun reported :: "SorterArg \<Rightarrow> SorterResult list" where
  "reported (One r) = [r]"
| "reported (Many rs) = rs"

text \<open>
  The page between two renders: the history effect has run for the last render, if that
  render reached it. An event of the controls: the interval control passes the string of
  one of its options.
\<close>

text \<open>The id and the selected interval an event leaves: the id the router gives, the
  string the interval control passed, or what they were.\<close>

definition id_after :: "UserEvent \<Rightarrow> UserPage \<Rightarrow> string" where
  "id_after e st = (case e of RouteChange ident \<Rightarrow> ident | _ \<Rightarrow> route_id st)"

definition interval_after :: "UserEvent \<Rightarrow> UserPage \<Rightarrow> string" where
  "interval_after e st = (case e of SetHistoryInterval val \<Rightarrow> val | _ \<Rightarrow> historyInterval st)"

definition page_rendered :: "UserPage \<Rightarrow> bool" where
  "page_rendered st =
     (history_deps st =
        (if route_id st = [] then None else Some (route_id st, historyInterval st)))"

definition from_controls :: "UserEvent \<Rightarrow> bool" where
  "from_controls e =
     (case e of
        SetHistoryInterval val \<Rightarrow> val \<in> set (map snd interval_options)
      | _ \<Rightarrow> True)"

text \<open>A fetch has succeeded when the response is ok and its body could be read.\<close>

definition succeeded :: "'a fetch_result \<Rightarrow> bool" where
  "succeeded res =
     (case res of NetworkError \<Rightarrow> False | Response ok status body \<Rightarrow> ok \<and> body \<noteq> None)"

text \<open>The query of a URL, as the server reads it: what follows the first \<open>?\<close>, without
  the fragment, split at \<open>&\<close> into pairs \<open>name=value\<close>.\<close>

fun split_on :: "char \<Rightarrow> string \<Rightarrow> string list" where
  "split_on c [] = [[]]"
| "split_on c (x # xs) =
     (if x = c then [] # split_on c xs
      else (case split_on c xs of [] \<Rightarrow> [[x]] | w # ws \<Rightarrow> (x # w) # ws))"

definition url_query :: "string \<Rightarrow> URLSearchParams" where
  "url_query url =
     map (\<lambda>p. (takeWhile (\<lambda>c. c \<noteq> CHR ''='') p, drop 1 (dropWhile (\<lambda>c. c \<noteq> CHR ''='') p)))
       (filter (\<lambda>p. p \<noteq> [])
          (split_on CHR ''&''
             (drop 1 (dropWhile (\<lambda>c. c \<noteq> CHR ''?'') (takeWhile (\<lambda>c. c \<noteq> CHR ''#'') url)))))"

text \<open>The parameters one filter entry and one sorter entry contribute, and the entry a
  reported sorter leaves in the \<^verbatim>\<open>sorters\<close> object.\<close>

definition filter_params :: "string \<times> FilterValue option \<Rightarrow> URLSearchParams" where
  "filter_params e = (case snd e of None \<Rightarrow> [] | Some vs \<Rightarrow> map (Pair (fst e)) vs)"

definition sorter_params :: "string \<times> SortOrder option \<Rightarrow> URLSearchParams" where
  "sorter_params e =
     (case snd e of None \<Rightarrow> []
      | Some ord \<Rightarrow> [(''sortField'', fst e), (''sortOrder'', SortOrder_string ord)])"

definition has_order :: "string \<times> SortOrder option \<Rightarrow> bool" where
  "has_order e = (snd e \<noteq> None)"

definition entry_of :: "SorterResult \<Rightarrow> string \<times> SortOrder option" where
  "entry_of s = (field_string (field s), order s)"

section \<open>Facts about objects and parameter lists\<close>

lemma obj_insert_map_of:
  "k \<notin> fst ` set obj \<Longrightarrow>
     map_of (obj_insert k v obj) k' = (if k' = k then Some v else map_of obj k')"
  by (induction obj) (auto split: option.splits)

lemma obj_insert_set: "set (obj_insert k v obj) = insert (k, v) (set obj)"
  by (induction obj) (auto split: option.splits if_splits)

lemma obj_insert_distinct:
  "k \<notin> fst ` set obj \<Longrightarrow> distinct (map fst obj) \<Longrightarrow> distinct (map fst (obj_insert k v obj))"
  by (induction obj) (auto split: option.splits if_splits simp: obj_insert_set)

lemma obj_insert_append:
  "array_index k = None \<Longrightarrow> obj_insert k v obj = obj @ [(k, v)]"
  by (induction obj) auto

lemma update_in_place_keys:
  "map fst (map (\<lambda>(k', v'). if k' = k then (k', v) else (k', v')) obj) = map fst obj"
  by (induction obj) auto

lemma update_in_place_vals:
  "snd ` set (map (\<lambda>(k', v'). if k' = k then (k', v) else (k', v')) obj) \<subseteq> insert v (snd ` set obj)"
  by (induction obj) (auto split: if_splits)

lemma map_of_update_in_place:
  "map_of (map (\<lambda>(k', v'). if k' = k then (k', v) else (k', v')) obj) k' =
     (if k' = k then (if k \<in> fst ` set obj then Some v else None) else map_of obj k')"
  by (induction obj) (force split: if_splits)+

lemma obj_set_get:
  "obj_get (obj_set obj k v) k' = (if k' = k then Some v else obj_get obj k')"
  by (simp add: obj_get_def obj_set_def obj_insert_map_of map_of_update_in_place)

lemma obj_set_keys: "fst ` set (obj_set obj k v) = insert k (fst ` set obj)"
proof (cases "k \<in> fst ` set obj")
  case True
  have "fst ` set (obj_set obj k v) = set (map fst (obj_set obj k v))" by simp
  also have "\<dots> = set (map fst obj)" using True by (simp only: obj_set_def if_True update_in_place_keys)
  finally show ?thesis using True by auto
next
  case False
  then show ?thesis by (simp add: obj_set_def obj_insert_set)
qed

lemma obj_set_vals: "snd ` set (obj_set obj k v) \<subseteq> insert v (snd ` set obj)"
  using update_in_place_vals [of k v obj] by (simp add: obj_set_def obj_insert_set)

lemma obj_set_is_object: "is_object obj \<Longrightarrow> is_object (obj_set obj k v)"
  unfolding is_object_def obj_set_def
  by (simp only: update_in_place_keys split: if_splits) (simp add: obj_insert_distinct)

lemma obj_set_new:
  "array_index k = None \<Longrightarrow> k \<notin> fst ` set obj \<Longrightarrow> obj_set obj k v = obj @ [(k, v)]"
  by (simp add: obj_set_def obj_insert_append)

lemma getAll_Nil: "getAll [] name = []"
  by (simp add: getAll_def)

lemma getAll_append: "getAll (q @ r) name = getAll q name @ getAll r name"
  by (simp add: getAll_def)

lemma fold_append_param: "fold (\<lambda>v q'. append_param q' nm v) vs q = q @ map (Pair nm) vs"
  by (induction vs arbitrary: q) (simp_all add: append_param_def)

lemma add_filter_eq: "add_filter e q = q @ filter_params e"
  by (cases e) (simp add: add_filter_def filter_params_def fold_append_param split: option.splits)

lemma add_sorter_eq: "add_sorter e q = q @ sorter_params e"
  by (cases e) (simp add: add_sorter_def sorter_params_def append_param_def split: option.splits)

lemma fold_add_filter: "fold add_filter es q = q @ concat (map filter_params es)"
  by (induction es arbitrary: q) (simp_all add: add_filter_eq)

lemma fold_add_sorter: "fold add_sorter es q = q @ concat (map sorter_params es)"
  by (induction es arbitrary: q) (simp_all add: add_sorter_eq)

lemma queryParams_eq:
  "queryParams pg fs ss =
     [(''page'', toString (or_default (current pg) 1)),
      (''per_page'', toString (or_default (pageSize pg) 10))]
     @ concat (map filter_params fs) @ concat (map sorter_params ss)"
  by (simp add: queryParams_def Object_entries_def fold_add_filter fold_add_sorter)

lemma getAll_filter_params:
  "getAll (filter_params e) name = (if fst e = name then (case snd e of None \<Rightarrow> [] | Some vs \<Rightarrow> vs) else [])"
  by (cases e) (auto simp: getAll_def filter_params_def comp_def split: option.splits)

lemma getAll_filters_absent:
  "name \<notin> fst ` set fs \<Longrightarrow> getAll (concat (map filter_params fs)) name = []"
  by (induction fs) (auto simp: getAll_append getAll_filter_params getAll_Nil)

lemma getAll_filters:
  "distinct (map fst fs) \<Longrightarrow>
   getAll (concat (map filter_params fs)) name =
     (case map_of fs name of None \<Rightarrow> [] | Some None \<Rightarrow> [] | Some (Some vs) \<Rightarrow> vs)"
proof (induction fs)
  case Nil
  then show ?case by (simp add: getAll_Nil)
next
  case (Cons e fs)
  obtain k v where e: "e = (k, v)" by (cases e)
  show ?case
  proof (cases "k = name")
    case True
    with Cons.prems e have "name \<notin> fst ` set fs" by auto
    then have "getAll (concat (map filter_params fs)) name = []" by (rule getAll_filters_absent)
    with True e show ?thesis
      by (simp add: getAll_append getAll_filter_params split: option.splits)
  next
    case False
    with Cons e show ?thesis by (simp add: getAll_append getAll_filter_params)
  qed
qed

lemma getAll_sorters_other:
  "name \<noteq> ''sortField'' \<Longrightarrow> name \<noteq> ''sortOrder'' \<Longrightarrow>
   getAll (concat (map sorter_params ss)) name = []"
  by (induction ss) (auto simp: getAll_append getAll_def sorter_params_def split: option.splits)

lemma getAll_sortField:
  "getAll (concat (map sorter_params ss)) ''sortField'' = map fst (filter has_order ss)"
  by (induction ss) (auto simp: getAll_append getAll_def sorter_params_def has_order_def split: option.splits)

lemma getAll_sortOrder:
  "getAll (concat (map sorter_params ss)) ''sortOrder'' =
     map (\<lambda>e. SortOrder_string (the (snd e))) (filter has_order ss)"
  by (induction ss) (auto simp: getAll_append getAll_def sorter_params_def has_order_def split: option.splits)


lemma fold_add_formatted:
  assumes "\<forall>s \<in> set rs. order s \<noteq> None \<longrightarrow>
             field_truthy (field s) \<and> array_index (field_string (field s)) = None"
      and "distinct (map (\<lambda>s. field_string (field s)) (filter (\<lambda>s. order s \<noteq> None) rs))"
      and "\<forall>s \<in> set rs. order s \<noteq> None \<longrightarrow> field_string (field s) \<notin> fst ` set acc"
  shows "fold add_formatted rs acc = acc @ map entry_of (filter (\<lambda>s. order s \<noteq> None) rs)"
  using assms
proof (induction rs arbitrary: acc)
  case Nil
  then show ?case by simp
next
  case (Cons s rs)
  show ?case
  proof (cases "order s = None")
    case True
    then have "add_formatted s acc = acc" by (simp add: add_formatted_def)
    with True Cons show ?thesis by simp
  next
    case False
    with Cons.prems have ok: "field_truthy (field s)" "array_index (field_string (field s)) = None"
      "field_string (field s) \<notin> fst ` set acc" by auto
    with False have step: "add_formatted s acc = acc @ [entry_of s]"
      by (simp add: add_formatted_def obj_set_new entry_of_def)
    have "fold add_formatted rs (acc @ [entry_of s]) =
            (acc @ [entry_of s]) @ map entry_of (filter (\<lambda>s. order s \<noteq> None) rs)"
    proof (rule Cons.IH)
      show "\<forall>s\<in>set rs. order s \<noteq> None \<longrightarrow>
              field_truthy (field s) \<and> array_index (field_string (field s)) = None"
        using Cons.prems(1) by simp
      show "distinct (map (\<lambda>s. field_string (field s)) (filter (\<lambda>s. order s \<noteq> None) rs))"
        using Cons.prems(2) by (simp split: if_splits)
      show "\<forall>s'\<in>set rs. order s' \<noteq> None \<longrightarrow>
              field_string (field s') \<notin> fst ` set (acc @ [entry_of s])"
        using Cons.prems(2,3) False by (auto simp: entry_of_def image_iff)
    qed
    with step False show ?thesis by simp
  qed
qed

lemma sortable_fields_plain:
  "d \<in> set (sortable_fields (columns locs)) \<Longrightarrow> d \<noteq> [] \<and> array_index d = None"
  by (auto simp: sortable_fields_def columns_def array_index_def is_digit_def)

lemma column_keys_plain:
  "k \<in> set (map key (columns locs)) \<Longrightarrow>
     k \<noteq> ''sortField'' \<and> k \<noteq> ''sortOrder'' \<and> k \<noteq> ''page'' \<and> k \<noteq> ''per_page''"
  by (auto simp: columns_def)

lemma reported_sorter_field:
  assumes "reported_sorters cols rs" "s \<in> set rs" "field s \<noteq> None"
  shows "\<exists>d. field s = Some (Field d) \<and> d \<in> set (sortable_fields cols)"
proof -
  from assms(1,2) have "names_sortable_column cols s"
    by (simp add: reported_sorters_def list_all_iff)
  with assms(3) show ?thesis
    by (cases "field s") (auto simp: names_sortable_column_def split: FieldKey.splits)
qed

lemma reported_sorter_order:
  assumes "reported_sorters cols rs" "s \<in> set rs" "order s \<noteq> None"
  shows "field s \<noteq> None"
proof -
  from assms(1,2) have "names_sortable_column cols s"
    by (simp add: reported_sorters_def list_all_iff)
  with assms(3) show ?thesis
    by (cases "field s") (auto simp: names_sortable_column_def)
qed

lemma reported_sorters_named:
  assumes "reported_sorters cols rs" "s \<in> set rs" "order s \<noteq> None"
  shows "\<exists>d. field s = Some (Field d)"
  using reported_sorter_field [OF assms(1,2)] reported_sorter_order [OF assms] by blast

lemma ordered_sorters_eq:
  assumes "reported_sorters cols rs"
  shows "ordered_sorters rs =
     map (\<lambda>s. (field_string (field s), SortOrder_string (the (order s))))
       (filter (\<lambda>s. order s \<noteq> None) rs)"
proof -
  have "ordered_sorters xs =
     map (\<lambda>s. (field_string (field s), SortOrder_string (the (order s))))
       (filter (\<lambda>s. order s \<noteq> None) xs)"
    if "\<forall>s \<in> set xs. order s \<noteq> None \<longrightarrow> (\<exists>d. field s = Some (Field d))" for xs
    using that
    by (induction xs)
       (auto simp: ordered_sorters_def List.map_filter_def field_string_def SortOrder_string_def
             split: option.splits SortOrder.splits)
  then show ?thesis
    using reported_sorters_named [OF assms] by blast
qed

lemma formattedSorters_reported:
  assumes rep: "reported_sorters (columns locs) rs"
  shows "formattedSorters rs = map entry_of (filter (\<lambda>s. order s \<noteq> None) rs)"
proof -
  let ?ord = "filter (\<lambda>s. order s \<noteq> None) rs"
  have named: "\<exists>d. field s = Some (Field d) \<and> d \<in> set (sortable_fields (columns locs))"
    if "s \<in> set rs" "order s \<noteq> None" for s
    using reported_sorter_field [OF rep that(1)] reported_sorter_order [OF rep that] by blast
  have a: "\<forall>s \<in> set rs. order s \<noteq> None \<longrightarrow>
             field_truthy (field s) \<and> array_index (field_string (field s)) = None"
  proof (intro ballI impI)
    fix s assume "s \<in> set rs" "order s \<noteq> None"
    then obtain d where d: "field s = Some (Field d)" "d \<in> set (sortable_fields (columns locs))"
      using named by blast
    with sortable_fields_plain [OF d(2)]
    show "field_truthy (field s) \<and> array_index (field_string (field s)) = None"
      by (simp add: field_truthy_def field_string_def)
  qed
  have sub: "?ord = filter (\<lambda>s. order s \<noteq> None) (filter (\<lambda>s. field s \<noteq> None) rs)"
    using reported_sorter_order [OF rep] by (auto intro: filter_cong)
  have "distinct (map field (filter (\<lambda>s. field s \<noteq> None) rs))"
    using rep by (simp add: reported_sorters_def)
  then have df: "distinct (map field ?ord)"
    unfolding sub by (rule distinct_map_filter)
  have inj: "inj_on field_string (set (map field ?ord))"
  proof (rule inj_onI)
    fix x y assume x: "x \<in> set (map field ?ord)" and y: "y \<in> set (map field ?ord)"
      and eq: "field_string x = field_string y"
    from x named obtain d where "x = Some (Field d)" by auto
    moreover from y named obtain e where "y = Some (Field e)" by auto
    ultimately show "x = y" using eq by (simp add: field_string_def)
  qed
  have "distinct (map field_string (map field ?ord))"
    by (rule iffD2 [OF distinct_map]) (rule conjI [OF df inj])
  then have b: "distinct (map (\<lambda>s. field_string (field s)) ?ord)"
    by (simp add: comp_def)
  have "fold add_formatted rs [] = [] @ map entry_of ?ord"
    by (rule fold_add_formatted [OF a b]) simp
  then show ?thesis by (simp add: formattedSorters_def)
qed

lemma sorter_params_entries:
  assumes "reported_sorters cols rs"
  shows "concat (map sorter_params (map entry_of (filter (\<lambda>s. order s \<noteq> None) rs))) =
     concat (map (\<lambda>p. [(''sortField'', fst p), (''sortOrder'', snd p)]) (ordered_sorters rs))"
proof -
  have "concat (map sorter_params (map entry_of xs)) =
          concat (map (\<lambda>p. [(''sortField'', fst p), (''sortOrder'', snd p)])
            (map (\<lambda>s. (field_string (field s), SortOrder_string (the (order s)))) xs))"
    if "\<forall>s \<in> set xs. order s \<noteq> None" for xs
    using that by (induction xs) (auto simp: sorter_params_def entry_of_def)
  from this [of "filter (\<lambda>s. order s \<noteq> None) rs"] show ?thesis
    by (simp add: ordered_sorters_eq [OF assms])
qed

lemma has_order_entries:
  "filter has_order (map entry_of (filter (\<lambda>s. order s \<noteq> None) rs)) =
     map entry_of (filter (\<lambda>s. order s \<noteq> None) rs)"
  by (induction rs) (auto simp: has_order_def entry_of_def)

lemma obj_get_Nil: "obj_get [] k = None"
  by (simp add: obj_get_def)

lemma fold_obj_set_get:
  "obj_get (fold (\<lambda>(k, v) obj. obj_set obj k v) es acc) k' =
     (case map_of (rev es) k' of None \<Rightarrow> obj_get acc k' | Some v \<Rightarrow> Some v)"
proof (induction es arbitrary: acc)
  case Nil
  then show ?case by simp
next
  case (Cons e es)
  obtain k v where e: "e = (k, v)" by (cases e)
  show ?case
    by (simp add: e Cons.IH obj_set_get map_add_def split: option.splits)
qed

lemma fold_obj_set_vals:
  "snd ` set (fold (\<lambda>(k, v) obj. obj_set obj k v) es acc) \<subseteq> snd ` set es \<union> snd ` set acc"
proof (induction es arbitrary: acc)
  case Nil
  then show ?case by simp
next
  case (Cons e es)
  obtain k v where e: "e = (k, v)" by (cases e)
  have "snd ` set (fold (\<lambda>(k, v) obj. obj_set obj k v) es (obj_set acc k v))
          \<subseteq> snd ` set es \<union> snd ` set (obj_set acc k v)"
    by (rule Cons.IH)
  with obj_set_vals [of acc k v] show ?case
    by (simp add: e) blast
qed

lemma fold_obj_set_is_object:
  "is_object acc \<Longrightarrow> is_object (fold (\<lambda>(k, v) obj. obj_set obj k v) es acc)"
  by (induction es arbitrary: acc) (auto simp: obj_set_is_object)

lemma map_of_rev_distinct:
  assumes "distinct (map fst xs)"
  shows "map_of (rev xs) k = map_of xs k"
proof (cases "map_of xs k")
  case None
  then have "k \<notin> fst ` set (rev xs)" by (simp add: map_of_eq_None_iff)
  then have "map_of (rev xs) k = None" by (simp add: map_of_eq_None_iff)
  with None show ?thesis by simp
next
  case (Some v)
  then have "(k, v) \<in> set (rev xs)" by (simp add: map_of_SomeD)
  moreover have "distinct (map fst (rev xs))" using assms by (simp add: rev_map [symmetric])
  ultimately have "map_of (rev xs) k = Some v" by (simp only: map_of_eq_Some_iff)
  with Some show ?thesis by simp
qed

lemma mapEntry_pair:
  "mapEntry (k, v) =
     (k, if v = JNull then JStr ''None'' else if v = JStr ''Organization'' then JStr ''Org'' else v)"
  by (simp add: mapEntry_def)

lemma map_of_mapEntry:
  "map_of (map mapEntry usr) k =
     map_option (\<lambda>v. if v = JNull then JStr ''None''
                     else if v = JStr ''Organization'' then JStr ''Org'' else v) (map_of usr k)"
proof (induction usr)
  case Nil
  show ?case by simp
next
  case (Cons e usr)
  obtain k' v' where e: "e = (k', v')" by (cases e)
  show ?case
    unfolding e list.map mapEntry_pair map_of.simps fst_conv snd_conv
    using Cons.IH by (cases "k' = k") simp_all
qed

lemma mapEntry_keys: "map fst (map mapEntry usr) = map fst usr"
  by (induction usr) (auto simp: mapEntry_def)

lemma mapEntry_not_null: "snd (mapEntry e) \<noteq> JNull"
  by (cases e) (simp add: mapEntry_def)

lemma getLeaderboardStats_timer:
  "snd (getLeaderboardStats st res) = (if succeeded res then Some 15000 else None)"
  by (simp add: getLeaderboardStats_def succeeded_def split: fetch_result.splits option.splits)

lemma stats_loop_failed:
  "\<not> succeeded bad \<Longrightarrow> snd (stats_loop st (bad # post)) = [Fetch]"
  using getLeaderboardStats_timer [of st bad]
  by (cases "getLeaderboardStats st bad") (simp split: option.splits)

lemma stats_loop_succeeded:
  "succeeded res \<Longrightarrow>
     snd (stats_loop st (res # rest)) =
       Fetch # SetTimeout 15000 # snd (stats_loop (fst (getLeaderboardStats st res)) rest)"
  using getLeaderboardStats_timer [of st res]
  by (cases "getLeaderboardStats st res") (simp split: option.splits prod.splits)

lemma interval_options_cases:
  "i \<in> set (map snd interval_options) \<Longrightarrow> i = ''W'' \<or> i = ''M''"
  by (auto simp: interval_options_def)

lemma url_query_interval:
  assumes "CHR ''?'' \<notin> set pre" "CHR ''#'' \<notin> set pre"
      and "i \<in> set (map snd interval_options)"
  shows "url_query (pre @ ''?interval='' @ i) = [(''interval'', i)]"
proof -
  let ?q = "''?interval='' @ i"
  from assms(3) have i: "i = ''W'' \<or> i = ''M''" by (rule interval_options_cases)
  have nohash: "CHR ''#'' \<notin> set (pre @ ?q)"
    using assms(2) i by auto
  have t: "takeWhile (\<lambda>c. c \<noteq> CHR ''#'') (pre @ ?q) = pre @ ?q"
    using nohash by (simp only: takeWhile_eq_all_conv) blast
  have d: "dropWhile (\<lambda>c. c \<noteq> CHR ''?'') (pre @ ?q) = ?q"
  proof -
    have "dropWhile (\<lambda>c. c \<noteq> CHR ''?'') (pre @ ?q) = dropWhile (\<lambda>c. c \<noteq> CHR ''?'') ?q"
      using assms(1) by (intro dropWhile_append2) auto
    then show ?thesis by simp
  qed
  show ?thesis
    unfolding url_query_def t d using i by auto
qed

lemma sortersArray_reported: "sortersArray newSorters = reported newSorters"
  by (cases newSorters) (simp_all add: sortersArray_def)

lemma update_route_id: "route_id (update e st) = id_after e st"
  by (cases e) (simp_all add: update_def id_after_def)

lemma update_historyInterval: "historyInterval (update e st) = interval_after e st"
  by (cases e) (simp_all add: update_def interval_after_def)

lemma update_history_deps: "history_deps (update e st) = history_deps st"
  by (cases e) (simp_all add: update_def)

lemma update_interval:
  assumes "from_controls e" and "historyInterval st \<in> set (map snd interval_options)"
  shows "historyInterval (update e st) \<in> set (map snd interval_options)"
  using assms by (cases e) (simp_all add: update_def from_controls_def)

lemma run_component_fields:
  "route_id (fst (run_component apiUrl st)) = route_id st"
  "historyInterval (fst (run_component apiUrl st)) = historyInterval st"
  by (simp_all add: run_component_def history_effect_def)

lemma run_component_rendered: "page_rendered (fst (run_component apiUrl st)) \<or> route_id st = []"
  by (simp add: run_component_def history_effect_def page_rendered_def)

section \<open>The claims\<close>

text \<open>
  C1. For every successful list-users response of shape \<^verbatim>\<open>{ users, total }\<close>,
  \<^verbatim>\<open>fetchUsers\<close> stores exactly one displayed row per element of \<^verbatim>\<open>users\<close> (the
  rows are the mapped users, one for one and in order), sets the pagination total to the
  total of the response, and leaves the current page number and the page size as they were.
\<close>

theorem fetchUsers_stores_rows:
  "users (fetchUsers st (Response True status (Some data))) = map mapUser (data_users data)
   \<and> length (users (fetchUsers st (Response True status (Some data)))) = length (data_users data)
   \<and> total_count (pagination (fetchUsers st (Response True status (Some data))))
       = Some (data_total data)
   \<and> current (pagination (fetchUsers st (Response True status (Some data))))
       = current (pagination st)
   \<and> pageSize (pagination (fetchUsers st (Response True status (Some data))))
       = pageSize (pagination st)"
  by (simp add: fetchUsers_def mappedUsers_def)

text \<open>
  C2. The claim is that the rendered earnings figure is a floor estimate that never
  exceeds the stored \<^verbatim>\<open>estimated_earnings\<close>. The cell rounds to the nearest integer
  instead: for a stored estimate of 2.5 it shows \<^verbatim>\<open>$3+ USD/mo\<close>, and 3 is more
  than 2.5.
\<close>

theorem earnings_cell_exceeds_estimate:
  "Math_round (5 / 2) = 3
   \<and> earnings_cell (5 / 2) = ''$3+ USD/mo''
   \<and> \<not> real_of_int (Math_round (5 / 2)) \<le> 5 / 2"
proof -
  have r: "Math_round (5 / 2) = 3"
    by (simp add: Math_round_def)
  have "toString 3 = ''3''"
    by (subst toString.simps) (simp add: digit_char_def)
  then have c: "earnings_cell (5 / 2) = ''$3+ USD/mo''"
    by (simp add: earnings_cell_def r int_string_def)
  from r c show ?thesis by simp
qed

text \<open>
  C3. The gender filter of the leaderboard table offers exactly the four entries Male,
  Female, Other, Unknown, in that order, each with its text equal to what it selects,
  whatever the location filters are. The filter menu of a column offers the entries of
  the column and nothing else, so no other string can be selected as a gender filter.
\<close>

theorem gender_filter_values:
  "map opt_value (offered_filters (columns locFilters) ''gender'')
     = [''Male'', ''Female'', ''Other'', ''Unknown'']
   \<and> map opt_text (offered_filters (columns locFilters) ''gender'')
     = [''Male'', ''Female'', ''Other'', ''Unknown'']
   \<and> (v \<in> set (map opt_value (offered_filters (columns locFilters) ''gender''))
        \<longleftrightarrow> v \<in> {''Male'', ''Female'', ''Other'', ''Unknown''})"
  by (auto simp: offered_filters_def columns_def)

text \<open>
  C4, as amended. The selected interval of the user detail page starts as \<open>W\<close>, and
  the first render of a page with an id requests the history at \<open>W\<close>. After an event
  of the controls the selected interval is again \<open>W\<close> or \<open>M\<close>. A later render fails
  exactly when the id goes from falsy to truthy or back; otherwise it shows the id and
  the interval the event left and, for a page with an id, issues a sponsorship-history
  request exactly when the id or the selected interval differs from before, to the one
  URL that ends in \<^verbatim>\<open>?interval=\<close> and the interval now selected, and a page without
  an id issues none. When neither the base URL
  nor the id contains \<open>?\<close> or \<open>#\<close>, the server reads the query of that URL as the
  single parameter \<^verbatim>\<open>interval\<close> with the selected interval.
\<close>

theorem history_requests:
  assumes "page_rendered st"
      and "historyInterval st \<in> set (map snd interval_options)"
      and "from_controls e"
  shows "historyInterval (initial_UserPage ident) = ''W''
       \<and> snd (mount apiUrl ident) =
           (if ident = [] then []
            else [apiUrl @ ''/user/'' @ ident @ ''/sponsorship-history?interval=W''])
       \<and> page_rendered (fst (mount apiUrl ident))
       \<and> (render apiUrl e st = None) = ((route_id st = []) \<noteq> (id_after e st = []))
       \<and> (\<forall>st' reqs. render apiUrl e st = Some (st', reqs) \<longrightarrow>
             (route_id st' = id_after e st \<and> historyInterval st' = interval_after e st)
             \<and> (historyInterval st' = ''W'' \<or> historyInterval st' = ''M'')
             \<and> reqs =
                 (if id_after e st \<noteq> []
                     \<and> (id_after e st \<noteq> route_id st \<or> interval_after e st \<noteq> historyInterval st)
                  then [apiUrl @ ''/user/'' @ id_after e st @ ''/sponsorship-history?interval=''
                          @ interval_after e st]
                  else [])
             \<and> (CHR ''?'' \<notin> set apiUrl \<union> set (id_after e st)
                  \<and> CHR ''#'' \<notin> set apiUrl \<union> set (id_after e st)
                  \<longrightarrow> list_all (\<lambda>url. getAll (url_query url) ''interval'' = [interval_after e st])
                        reqs)
             \<and> page_rendered st')"
proof -
  let ?u = "update e st"
  have c1: "historyInterval (initial_UserPage ident) = ''W''"
    by (simp add: initial_UserPage_def)
  have m1: "snd (mount apiUrl ident) =
           (if ident = [] then []
            else [apiUrl @ ''/user/'' @ ident @ ''/sponsorship-history?interval=W''])"
    by (simp add: mount_def run_component_def history_effect_def initial_UserPage_def
          fetchHistory_def)
  have m2: "page_rendered (fst (mount apiUrl ident))"
    by (simp add: mount_def run_component_def history_effect_def initial_UserPage_def
          page_rendered_def)
  have c2: "(render apiUrl e st = None) = ((route_id st = []) \<noteq> (id_after e st = []))"
    by (simp add: render_def update_route_id)
  have iv: "historyInterval ?u \<in> set (map snd interval_options)"
    using assms(3,2) by (rule update_interval)
  have deps: "history_deps ?u = history_deps st"
    by (rule update_history_deps)
  have c3: "(route_id st' = id_after e st \<and> historyInterval st' = interval_after e st)
             \<and> (historyInterval st' = ''W'' \<or> historyInterval st' = ''M'')
             \<and> reqs =
                 (if id_after e st \<noteq> []
                     \<and> (id_after e st \<noteq> route_id st \<or> interval_after e st \<noteq> historyInterval st)
                  then [apiUrl @ ''/user/'' @ id_after e st @ ''/sponsorship-history?interval=''
                          @ interval_after e st]
                  else [])
             \<and> (CHR ''?'' \<notin> set apiUrl \<union> set (id_after e st)
                  \<and> CHR ''#'' \<notin> set apiUrl \<union> set (id_after e st)
                  \<longrightarrow> list_all (\<lambda>url. getAll (url_query url) ''interval'' = [interval_after e st])
                        reqs)
             \<and> page_rendered st'"
    if r: "render apiUrl e st = Some (st', reqs)" for st' reqs
  proof -
    from r have same: "(route_id st = []) = (route_id ?u = [])"
      and run: "run_component apiUrl ?u = (st', reqs)"
      by (simp_all add: render_def split: if_splits)
    from run have st': "st' = fst (run_component apiUrl ?u)" and reqs: "reqs = snd (run_component apiUrl ?u)"
      by simp_all
    have rid: "route_id st' = route_id ?u" and hi: "historyInterval st' = historyInterval ?u"
      unfolding st' by (rule run_component_fields)+
    have d1: "historyInterval st' = ''W'' \<or> historyInterval st' = ''M''"
      unfolding hi using iv by (rule interval_options_cases)
    have d2: "reqs =
                 (if route_id st' \<noteq> []
                     \<and> (route_id st' \<noteq> route_id st \<or> historyInterval st' \<noteq> historyInterval st)
                  then [apiUrl @ ''/user/'' @ route_id st' @ ''/sponsorship-history?interval=''
                          @ historyInterval st']
                  else [])"
    proof (cases "route_id ?u = []")
      case True
      then show ?thesis
        unfolding rid hi reqs by (simp add: run_component_def)
    next
      case False
      with same have "route_id st \<noteq> []" by simp
      with assms(1) have "history_deps st = Some (route_id st, historyInterval st)"
        by (simp add: page_rendered_def)
      with deps have "history_deps ?u = Some (route_id st, historyInterval st)" by simp
      with False show ?thesis
        unfolding rid hi reqs
        by (auto simp: run_component_def history_effect_def fetchHistory_def)
    qed
    have d3: "list_all (\<lambda>url. getAll (url_query url) ''interval'' = [historyInterval st']) reqs"
      if "CHR ''?'' \<notin> set apiUrl \<union> set (route_id st')"
        and "CHR ''#'' \<notin> set apiUrl \<union> set (route_id st')"
    proof -
      have pre: "CHR ''?'' \<notin> set (apiUrl @ ''/user/'' @ route_id st' @ ''/sponsorship-history'')"
                "CHR ''#'' \<notin> set (apiUrl @ ''/user/'' @ route_id st' @ ''/sponsorship-history'')"
        using that by simp_all
      have "url_query ((apiUrl @ ''/user/'' @ route_id st' @ ''/sponsorship-history'')
               @ ''?interval='' @ historyInterval st') = [(''interval'', historyInterval st')]"
        using pre iv unfolding hi [symmetric] by (rule url_query_interval)
      then have "getAll (url_query (apiUrl @ ''/user/'' @ route_id st'
               @ ''/sponsorship-history?interval='' @ historyInterval st')) ''interval'' =
              [historyInterval st']"
        by (simp add: getAll_def)
      then show ?thesis
        by (subst d2) simp
    qed
    have d4: "page_rendered st'"
    proof (cases "route_id ?u = []")
      case True
      with same have "route_id st = []" by simp
      with assms(1) deps have "history_deps ?u = None" by (simp add: page_rendered_def)
      with True show ?thesis
        unfolding st' by (simp add: run_component_def page_rendered_def)
    next
      case False
      with run_component_rendered [of apiUrl ?u] show ?thesis
        unfolding st' by simp
    qed
    have ida: "id_after e st = route_id st'" and iva: "interval_after e st = historyInterval st'"
      unfolding rid hi by (simp_all add: update_route_id update_historyInterval)
    from d1 d2 d3 d4 show ?thesis
      unfolding ida iva by blast
  qed
  from c1 m1 m2 c2 c3 show ?thesis by blast
qed

theorem history_requests_witness:
  "page_rendered (fst (mount ''http://api'' ''12''))
   \<and> historyInterval (fst (mount ''http://api'' ''12'')) \<in> set (map snd interval_options)
   \<and> from_controls (SetHistoryInterval ''M'')
   \<and> snd (mount ''http://api'' ''12'') = [''http://api/user/12/sponsorship-history?interval=W'']
   \<and> render ''http://api'' (SetHistoryInterval ''M'') (fst (mount ''http://api'' ''12''))
     = Some (\<lparr>route_id = ''12'', user = None, isLoading = True, viewMode = Activity,
              historyInterval = ''M'', sponsorshipHistory = [],
              history_deps = Some (''12'', ''M'')\<rparr>,
             [''http://api/user/12/sponsorship-history?interval=M''])
   \<and> getAll (url_query ''http://api/user/12/sponsorship-history?interval=M'') ''interval''
     = [''M'']"
proof -
  let ?st = "fst (mount ''http://api'' ''12'')"
  let ?st' = "\<lparr>route_id = ''12'', user = None, isLoading = True, viewMode = Activity,
               historyInterval = ''M'', sponsorshipHistory = [],
               history_deps = Some (''12'', ''M'')\<rparr>"
  let ?url = "''http://api/user/12/sponsorship-history?interval=M''"
  have m: "?st = \<lparr>route_id = ''12'', user = None, isLoading = True, viewMode = Activity,
                  historyInterval = ''W'', sponsorshipHistory = [],
                  history_deps = Some (''12'', ''W'')\<rparr>"
    by (simp add: mount_def run_component_def history_effect_def initial_UserPage_def)
  have h1: "page_rendered ?st"
    unfolding m by (simp add: page_rendered_def)
  have h2: "historyInterval ?st \<in> set (map snd interval_options)"
    unfolding m by (simp add: interval_options_def)
  have h3: "from_controls (SetHistoryInterval ''M'')"
    by (simp add: from_controls_def interval_options_def)
  have r: "render ''http://api'' (SetHistoryInterval ''M'') ?st = Some (?st', [?url])"
    unfolding m
    by (simp add: render_def update_def run_component_def history_effect_def fetchHistory_def)
  note t = history_requests [OF h1 h2 h3, of "''12''" "''http://api''"]
  from t have s: "snd (mount ''http://api'' ''12'') =
                   [''http://api/user/12/sponsorship-history?interval=W'']"
    by simp
  have ia: "id_after (SetHistoryInterval ''M'') ?st = ''12''"
    unfolding m by (simp add: id_after_def)
  have va: "interval_after (SetHistoryInterval ''M'') ?st = ''M''"
    by (simp add: interval_after_def)
  from t r have "CHR ''?'' \<notin> set ''http://api'' \<union> set (id_after (SetHistoryInterval ''M'') ?st)
                  \<and> CHR ''#'' \<notin> set ''http://api'' \<union> set (id_after (SetHistoryInterval ''M'') ?st)
                  \<longrightarrow> list_all (\<lambda>url. getAll (url_query url) ''interval'' =
                                   [interval_after (SetHistoryInterval ''M'') ?st])
                        [?url]"
    by blast
  then have q: "getAll (url_query ?url) ''interval'' = [''M'']"
    unfolding ia va by simp
  from h1 h2 h3 s r q show ?thesis by blast
qed

text \<open>
  The claim as it was stated fails for an id with a fragment sign: the page at id
  \<^verbatim>\<open>a#b\<close> fetches a URL whose query is empty, so the request carries no
  \<^verbatim>\<open>interval\<close> parameter.
\<close>

theorem history_request_without_interval:
  "snd (mount ''http://api'' ''a#b'') = [''http://api/user/a#b/sponsorship-history?interval=W'']
   \<and> url_query ''http://api/user/a#b/sponsorship-history?interval=W'' = []
   \<and> getAll (url_query ''http://api/user/a#b/sponsorship-history?interval=W'') ''interval'' = []
   \<and> getAll (url_query ''http://api/user/a#b/sponsorship-history?interval=W'') ''interval''
       \<noteq> [historyInterval (fst (mount ''http://api'' ''a#b''))]"
proof -
  have s: "snd (mount ''http://api'' ''a#b'') =
             [''http://api/user/a#b/sponsorship-history?interval=W'']"
    by (simp add: mount_def run_component_def history_effect_def initial_UserPage_def
          fetchHistory_def)
  have q: "url_query ''http://api/user/a#b/sponsorship-history?interval=W'' = []"
    by (simp add: url_query_def)
  have i: "historyInterval (fst (mount ''http://api'' ''a#b'')) = ''W''"
    by (simp add: mount_def run_component_def history_effect_def initial_UserPage_def)
  show ?thesis
    unfolding s q i by (simp add: getAll_def)
qed

text \<open>
  C5. After a change the table reports for its columns, be it an array of sorters or a
  lone sorter, the next list-users request has one \<^verbatim>\<open>sortField\<close> and one
  \<^verbatim>\<open>sortOrder\<close> parameter for each reported sorter whose order is not null, in the
  order the table reported them, and none for a sorter whose order is null: the values
  under \<^verbatim>\<open>sortField\<close> are the fields of the ordered sorters, and the values under
  \<^verbatim>\<open>sortOrder\<close> are their orders. The request ends with these pairs, each
  \<^verbatim>\<open>sortField\<close> directly followed by its \<^verbatim>\<open>sortOrder\<close>, and has no parameter of
  either name before them.
\<close>

theorem table_change_sort_params:
  assumes "reported_sorters (columns locs) (reported newSorters)"
      and "reported_filters (columns locs) newFilters"
  shows "getAll (searchParams (effect_request apiUrl (handleTableChange st newFilters newSorters)))
           ''sortField'' = map fst (ordered_sorters (reported newSorters))
       \<and> getAll (searchParams (effect_request apiUrl (handleTableChange st newFilters newSorters)))
           ''sortOrder'' = map snd (ordered_sorters (reported newSorters))
       \<and> (\<exists>pre. searchParams (effect_request apiUrl (handleTableChange st newFilters newSorters)) =
                  pre @ concat (map (\<lambda>p. [(''sortField'', fst p), (''sortOrder'', snd p)])
                                 (ordered_sorters (reported newSorters)))
                \<and> getAll pre ''sortField'' = [] \<and> getAll pre ''sortOrder'' = [])"
proof -
  let ?rs = "reported newSorters"
  let ?ss = "map entry_of (filter (\<lambda>s. order s \<noteq> None) ?rs)"
  let ?pre = "[(''page'', toString (or_default (Some 1) 1)),
               (''per_page'', toString (or_default (pageSize (pagination st)) 10))]
              @ concat (map filter_params newFilters)"
  have q: "searchParams (effect_request apiUrl (handleTableChange st newFilters newSorters)) =
             ?pre @ concat (map sorter_params ?ss)"
    by (simp add: effect_request_def fetchUsers_request_def handleTableChange_def
          queryParams_eq sortersArray_reported formattedSorters_reported [OF assms(1)])
  have "k \<in> set (map key (columns locs))" if "k \<in> fst ` set newFilters" for k
    using assms(2) that by (auto simp: reported_filters_def list_all_iff)
  then have keys: "''sortField'' \<notin> fst ` set newFilters" "''sortOrder'' \<notin> fst ` set newFilters"
    using column_keys_plain [of _ locs] by blast+
  have f1: "getAll (concat (map filter_params newFilters)) ''sortField'' = []"
    and f2: "getAll (concat (map filter_params newFilters)) ''sortOrder'' = []"
    using keys by (simp_all add: getAll_filters_absent)
  have p1: "getAll [(''page'', a), (''per_page'', b)] ''sortField'' = []"
    and p2: "getAll [(''page'', a), (''per_page'', b)] ''sortOrder'' = []" for a b
    by (simp_all add: getAll_def)
  have e1: "getAll ?pre ''sortField'' = []" and e2: "getAll ?pre ''sortOrder'' = []"
    by (simp_all only: getAll_append p1 p2 f1 f2 append_Nil)
  have "getAll (concat (map sorter_params ?ss)) ''sortField'' = map fst (filter has_order ?ss)"
    by (rule getAll_sortField)
  also have "\<dots> = map fst ?ss"
    by (simp only: has_order_entries)
  also have "\<dots> = map fst (ordered_sorters ?rs)"
    by (simp add: ordered_sorters_eq [OF assms(1)] entry_of_def comp_def)
  finally have s1: "getAll (concat (map sorter_params ?ss)) ''sortField'' =
                      map fst (ordered_sorters ?rs)" .
  have "getAll (concat (map sorter_params ?ss)) ''sortOrder'' =
          map (\<lambda>e. SortOrder_string (the (snd e))) (filter has_order ?ss)"
    by (rule getAll_sortOrder)
  also have "\<dots> = map (\<lambda>e. SortOrder_string (the (snd e))) ?ss"
    by (simp only: has_order_entries)
  also have "\<dots> = map snd (ordered_sorters ?rs)"
    by (simp add: ordered_sorters_eq [OF assms(1)] entry_of_def comp_def)
  finally have s2: "getAll (concat (map sorter_params ?ss)) ''sortOrder'' =
                      map snd (ordered_sorters ?rs)" .
  have g1: "getAll (searchParams (effect_request apiUrl (handleTableChange st newFilters newSorters)))
              ''sortField'' = map fst (ordered_sorters ?rs)"
    unfolding q by (simp only: getAll_append [of ?pre] e1 s1 append_Nil)
  have g2: "getAll (searchParams (effect_request apiUrl (handleTableChange st newFilters newSorters)))
              ''sortOrder'' = map snd (ordered_sorters ?rs)"
    unfolding q by (simp only: getAll_append [of ?pre] e2 s2 append_Nil)
  have g3: "\<exists>pre. searchParams (effect_request apiUrl (handleTableChange st newFilters newSorters)) =
                  pre @ concat (map (\<lambda>p. [(''sortField'', fst p), (''sortOrder'', snd p)])
                                 (ordered_sorters ?rs))
                \<and> getAll pre ''sortField'' = [] \<and> getAll pre ''sortOrder'' = []"
    using q e1 e2 unfolding sorter_params_entries [OF assms(1)] by blast
  from g1 g2 g3 show ?thesis by blast
qed

theorem table_change_sort_params_witness:
  "reported_sorters (columns [])
     (reported (Many [\<lparr>field = Some (Field ''followers''), order = Some descend\<rparr>,
                      \<lparr>field = Some (Field ''public_repos''), order = None\<rparr>,
                      \<lparr>field = Some (Field ''estimated_earnings''), order = Some ascend\<rparr>]))
   \<and> reported_sorters (columns [])
        (reported (One \<lparr>field = Some (Field ''username''), order = Some ascend\<rparr>))
   \<and> reported_filters (columns [])
        [(''type'', None), (''gender'', Some [''Male'', ''Other'']), (''location'', None)]
   \<and> searchParams (effect_request ''http://api''
        (handleTableChange initial_Leaderboard
           [(''type'', None), (''gender'', Some [''Male'', ''Other'']), (''location'', None)]
           (Many [\<lparr>field = Some (Field ''followers''), order = Some descend\<rparr>,
                  \<lparr>field = Some (Field ''public_repos''), order = None\<rparr>,
                  \<lparr>field = Some (Field ''estimated_earnings''), order = Some ascend\<rparr>])))
     = [(''page'', ''1''), (''per_page'', ''10''), (''gender'', ''Male''), (''gender'', ''Other''),
        (''sortField'', ''followers''), (''sortOrder'', ''descend''),
        (''sortField'', ''estimated_earnings''), (''sortOrder'', ''ascend'')]
   \<and> getAll (searchParams (effect_request ''http://api''
        (handleTableChange initial_Leaderboard
           [(''type'', None), (''gender'', Some [''Male'', ''Other'']), (''location'', None)]
           (Many [\<lparr>field = Some (Field ''followers''), order = Some descend\<rparr>,
                  \<lparr>field = Some (Field ''public_repos''), order = None\<rparr>,
                  \<lparr>field = Some (Field ''estimated_earnings''), order = Some ascend\<rparr>]))))
        ''sortField'' = [''followers'', ''estimated_earnings'']
   \<and> getAll (searchParams (effect_request ''http://api''
        (handleTableChange initial_Leaderboard
           [(''type'', None), (''gender'', Some [''Male'', ''Other'']), (''location'', None)]
           (One \<lparr>field = Some (Field ''username''), order = Some ascend\<rparr>))))
        ''sortField'' = [''username'']
   \<and> getAll (searchParams (effect_request ''http://api''
        (handleTableChange initial_Leaderboard
           [(''type'', None), (''gender'', Some [''Male'', ''Other'']), (''location'', None)]
           (One \<lparr>field = Some (Field ''username''), order = Some ascend\<rparr>))))
        ''sortOrder'' = [''ascend'']"
proof -
  let ?many = "Many [\<lparr>field = Some (Field ''followers''), order = Some descend\<rparr>,
                     \<lparr>field = Some (Field ''public_repos''), order = None\<rparr>,
                     \<lparr>field = Some (Field ''estimated_earnings''), order = Some ascend\<rparr>]"
  let ?one = "One \<lparr>field = Some (Field ''username''), order = Some ascend\<rparr>"
  let ?fs = "[(''type'', None), (''gender'', Some [''Male'', ''Other'']), (''location'', None)]"
  have h1: "reported_sorters (columns []) (reported ?many)"
    by (simp add: reported_sorters_def names_sortable_column_def sortable_fields_def columns_def)
  have h1': "reported_sorters (columns []) (reported ?one)"
    by (simp add: reported_sorters_def names_sortable_column_def sortable_fields_def columns_def)
  have h2: "reported_filters (columns []) ?fs"
    by (simp add: reported_filters_def is_object_def columns_def)
  have v: "ordered_sorters (reported ?many) =
             [(''followers'', ''descend''), (''estimated_earnings'', ''ascend'')]"
    by (simp add: ordered_sorters_def List.map_filter_def)
  have v': "ordered_sorters (reported ?one) = [(''username'', ''ascend'')]"
    by (simp add: ordered_sorters_def List.map_filter_def)
  note many = table_change_sort_params [OF h1 h2, of "''http://api''" initial_Leaderboard]
  note one = table_change_sort_params [OF h1' h2, of "''http://api''" initial_Leaderboard]
  have one1: "toString 1 = ''1''"
    by (subst toString.simps) (simp add: digit_char_def)
  have "toString 10 = toString 1 @ ''0''"
    by (subst toString.simps) (simp add: digit_char_def)
  with one1 have ten: "toString 10 = ''10''" by simp
  from one1 have one1': "toString (Suc 0) = ''1''" by simp
  have full: "searchParams (effect_request ''http://api''
                (handleTableChange initial_Leaderboard ?fs ?many))
     = [(''page'', ''1''), (''per_page'', ''10''), (''gender'', ''Male''), (''gender'', ''Other''),
        (''sortField'', ''followers''), (''sortOrder'', ''descend''),
        (''sortField'', ''estimated_earnings''), (''sortOrder'', ''ascend'')]"
    by (simp add: effect_request_def fetchUsers_request_def handleTableChange_def
          queryParams_eq sortersArray_reported
          formattedSorters_reported [OF h1, unfolded reported.simps]
          initial_Leaderboard_def or_default_def one1' ten filter_params_def sorter_params_def
          entry_of_def field_string_def SortOrder_string_def)
  from many one h1 h1' h2 full show ?thesis
    unfolding v v' by simp
qed

text \<open>
  C6. The list-users request always starts with the parameters \<^verbatim>\<open>page\<close> and
  \<^verbatim>\<open>per_page\<close>, which are 1 and 10 when the pagination does not set them. For a
  filter key (other than the four names the request uses itself) whose value is an
  array, the values of the request under that key are the elements of the array, one
  parameter for each; a key whose value is null or the empty array, or that the filters
  do not have, contributes no parameter.
\<close>

theorem fetchUsers_filter_params:
  assumes "is_object currentFilters"
      and "name \<notin> {''page'', ''per_page'', ''sortField'', ''sortOrder''}"
  shows "take 2 (searchParams (fetchUsers_request apiUrl pg currentFilters currentSorters)) =
           [(''page'', case current pg of None \<Rightarrow> ''1''
                        | Some n \<Rightarrow> if n = 0 then ''1'' else toString n),
            (''per_page'', case pageSize pg of None \<Rightarrow> ''10''
                            | Some n \<Rightarrow> if n = 0 then ''10'' else toString n)]
       \<and> getAll (searchParams (fetchUsers_request apiUrl pg currentFilters currentSorters)) name =
           (case obj_get currentFilters name of
              None \<Rightarrow> []
            | Some None \<Rightarrow> []
            | Some (Some vs) \<Rightarrow> vs)"
proof -
  have one: "toString 1 = ''1''"
    by (subst toString.simps) (simp add: digit_char_def)
  have "toString 10 = toString 1 @ ''0''"
    by (subst toString.simps) (simp add: digit_char_def)
  with one have ten: "toString 10 = ''10''" by simp
  from one have one': "toString (Suc 0) = ''1''" by simp
  have pre: "take 2 (searchParams (fetchUsers_request apiUrl pg currentFilters currentSorters)) =
           [(''page'', case current pg of None \<Rightarrow> ''1''
                        | Some n \<Rightarrow> if n = 0 then ''1'' else toString n),
            (''per_page'', case pageSize pg of None \<Rightarrow> ''10''
                            | Some n \<Rightarrow> if n = 0 then ''10'' else toString n)]"
    by (simp add: fetchUsers_request_def queryParams_eq or_default_def one' ten
          split: option.splits)
  have p: "getAll [(''page'', a), (''per_page'', b)] name = []" for a b
    using assms(2) by (auto simp: getAll_def)
  have s: "getAll (concat (map sorter_params currentSorters)) name = []"
    using assms(2) by (auto simp: getAll_sorters_other)
  have f: "getAll (concat (map filter_params currentFilters)) name =
             (case obj_get currentFilters name of
                None \<Rightarrow> [] | Some None \<Rightarrow> [] | Some (Some vs) \<Rightarrow> vs)"
    using assms(1) by (simp add: getAll_filters is_object_def obj_get_def)
  have "getAll (searchParams (fetchUsers_request apiUrl pg currentFilters currentSorters)) name =
          (case obj_get currentFilters name of
             None \<Rightarrow> [] | Some None \<Rightarrow> [] | Some (Some vs) \<Rightarrow> vs)"
    by (simp only: fetchUsers_request_def queryParams_eq Request.simps getAll_append p s f
          append_Nil append_Nil2)
  with pre show ?thesis by (rule conjI)
qed

theorem fetchUsers_filter_params_witness:
  "is_object [(''type'', None), (''gender'', Some [''Male'', ''Other'']), (''location'', Some [])]
   \<and> take 2 (searchParams (fetchUsers_request ''http://api''
        \<lparr>current = None, pageSize = None, total_count = None\<rparr>
        [(''type'', None), (''gender'', Some [''Male'', ''Other'']), (''location'', Some [])]
        [(''followers'', Some descend)])) = [(''page'', ''1''), (''per_page'', ''10'')]
   \<and> getAll (searchParams (fetchUsers_request ''http://api''
        \<lparr>current = None, pageSize = None, total_count = None\<rparr>
        [(''type'', None), (''gender'', Some [''Male'', ''Other'']), (''location'', Some [])]
        [(''followers'', Some descend)])) ''gender'' = [''Male'', ''Other'']"
proof -
  let ?fs = "[(''type'', None), (''gender'', Some [''Male'', ''Other'']), (''location'', Some [])]"
  have h1: "is_object ?fs" by (simp add: is_object_def)
  have h2: "''gender'' \<notin> {''page'', ''per_page'', ''sortField'', ''sortOrder''}" by simp
  from fetchUsers_filter_params [OF h1 h2, of "''http://api''"
      "\<lparr>current = None, pageSize = None, total_count = None\<rparr>" "[(''followers'', Some descend)]"] h1
  show ?thesis by (simp add: obj_get_def)
qed

text \<open>
  C7. For every string array returned by the distinct-locations endpoint, the leaderboard
  builds exactly one filter option per string, with both text and value equal to that
  string, in the order of the response: the options are as many as the strings, and
  reading off their texts, or their values, gives the response back.
\<close>

theorem getLocations_options:
  "length (locationFilters (getLocations st (Response True status (Some data)))) = length data
   \<and> map opt_text (locationFilters (getLocations st (Response True status (Some data)))) = data
   \<and> map opt_value (locationFilters (getLocations st (Response True status (Some data)))) = data"
  by (simp add: getLocations_def locationData_def comp_def)

text \<open>
  C8. The mapping of a user object of a list-users response keeps its fields; a field
  that is null becomes the string \<^verbatim>\<open>None\<close>, a field that is the string
  \<^verbatim>\<open>Organization\<close> becomes \<^verbatim>\<open>Org\<close>, and every other field keeps what it had. No
  field of a displayed row is null.
\<close>

theorem mapUser_fields:
  assumes "is_object usr"
  shows "obj_get (mapUser usr) k =
           (case obj_get usr k of
              None \<Rightarrow> None
            | Some v \<Rightarrow>
                Some (if v = JNull then JStr ''None''
                      else if v = JStr ''Organization'' then JStr ''Org'' else v))
       \<and> JNull \<notin> snd ` set (mapUser usr)
       \<and> is_object (mapUser usr)"
proof -
  have d: "distinct (map fst (map mapEntry usr))"
    using assms by (simp only: mapEntry_keys is_object_def)
  have "obj_get (mapUser usr) k = map_of (rev (map mapEntry usr)) k"
    by (simp add: mapUser_def Object_fromEntries_def Object_entries_def fold_obj_set_get
          obj_get_Nil split: option.splits)
  also have "\<dots> = map_of (map mapEntry usr) k"
    using d by (rule map_of_rev_distinct)
  also have "\<dots> = (case obj_get usr k of
              None \<Rightarrow> None
            | Some v \<Rightarrow>
                Some (if v = JNull then JStr ''None''
                      else if v = JStr ''Organization'' then JStr ''Org'' else v))"
    by (simp add: map_of_mapEntry obj_get_def split: option.splits)
  finally have a: "obj_get (mapUser usr) k = (case obj_get usr k of
              None \<Rightarrow> None
            | Some v \<Rightarrow>
                Some (if v = JNull then JStr ''None''
                      else if v = JStr ''Organization'' then JStr ''Org'' else v))" .
  have sub: "snd ` set (mapUser usr) \<subseteq> snd ` set (map mapEntry usr)"
    using fold_obj_set_vals [of "map mapEntry usr" "[]"]
    by (simp add: mapUser_def Object_fromEntries_def Object_entries_def)
  have b: "JNull \<notin> snd ` set (mapUser usr)"
  proof
    assume "JNull \<in> snd ` set (mapUser usr)"
    with sub have "JNull \<in> snd ` set (map mapEntry usr)" by blast
    then obtain e where "JNull = snd (mapEntry e)" by auto
    with mapEntry_not_null [of e] show False by simp
  qed
  have c: "is_object (mapUser usr)"
    unfolding mapUser_def Object_fromEntries_def
    by (rule fold_obj_set_is_object) (simp add: is_object_def)
  from a b c show ?thesis by blast
qed

theorem mapUser_fields_witness:
  "is_object [(''id'', JNum 7), (''name'', JNull), (''type'', JStr ''Organization'')]
   \<and> obj_get (mapUser [(''id'', JNum 7), (''name'', JNull), (''type'', JStr ''Organization'')])
         ''name'' = Some (JStr ''None'')
   \<and> JNull \<notin> snd ` set (mapUser [(''id'', JNum 7), (''name'', JNull),
                                    (''type'', JStr ''Organization'')])"
proof -
  let ?u = "[(''id'', JNum 7), (''name'', JNull), (''type'', JStr ''Organization'')]"
  have h: "is_object ?u" by (simp add: is_object_def)
  from mapUser_fields [OF h, of "''name''"] h show ?thesis
    by (simp add: obj_get_def)
qed

text \<open>
  C9. Every change made through the filter or sort controls of the leaderboard table
  (the table's \<^verbatim>\<open>onChange\<close>, which is \<^verbatim>\<open>handleTableChange\<close>) sets the current page
  number to 1 and leaves the page size, and the total, as they were.
\<close>

theorem handleTableChange_first_page:
  "current (pagination (handleTableChange st newFilters newSorters)) = Some 1
   \<and> pageSize (pagination (handleTableChange st newFilters newSorters)) = pageSize (pagination st)
   \<and> total_count (pagination (handleTableChange st newFilters newSorters))
       = total_count (pagination st)"
  by (simp add: handleTableChange_def)

text \<open>
  C10. A call of \<^verbatim>\<open>getLeaderboardStats\<close> sets the timer for the next call, 15000
  milliseconds later, exactly when its fetch succeeded. So in the refresh loop, when
  the fetches before it succeeded and one fetch fails, the loop has fetched and set a
  timer once for each success, then fetched once more, and does nothing after that,
  whatever the later outcomes would have been.
\<close>

theorem stats_loop_stops:
  assumes "list_all succeeded pre" and "\<not> succeeded bad"
  shows "(\<forall>res. snd (getLeaderboardStats st res) = (if succeeded res then Some 15000 else None))
       \<and> snd (stats_loop st (pre @ bad # post)) =
           concat (map (\<lambda>res. [Fetch, SetTimeout 15000]) pre) @ [Fetch]"
proof -
  have "snd (stats_loop st (pre @ bad # post)) =
          concat (map (\<lambda>res. [Fetch, SetTimeout 15000]) pre) @ [Fetch]"
    using assms(1)
  proof (induction pre arbitrary: st)
    case Nil
    have "snd (stats_loop st (bad # post)) = [Fetch]"
      using assms(2) by (rule stats_loop_failed)
    then show ?case by (simp only: append_Nil list.map concat.simps)
  next
    case (Cons res pre)
    then have "succeeded res" "list_all succeeded pre" by simp_all
    with Cons.IH show ?case by (simp add: stats_loop_succeeded del: stats_loop.simps)
  qed
  then show ?thesis by (simp add: getLeaderboardStats_timer)
qed

theorem stats_loop_stops_witness:
  "list_all succeeded
     [Response True 200 (Some \<lparr>total_users = 3, total_sponsorships = 2,
        top_sponsored = \<lparr>sponsored_username = ''a'', sponsored_avatar_url = ''u'', total_sponsors = 2\<rparr>,
        top_sponsoring = \<lparr>sponsoring_username = ''b'', sponsoring_avatar_url = ''v'', total_sponsoring = 1\<rparr>\<rparr>)]
   \<and> \<not> succeeded (Response False 500 None :: LeaderboardStatsData fetch_result)
   \<and> snd (stats_loop initial_Leaderboard
        ([Response True 200 (Some \<lparr>total_users = 3, total_sponsorships = 2,
            top_sponsored = \<lparr>sponsored_username = ''a'', sponsored_avatar_url = ''u'', total_sponsors = 2\<rparr>,
            top_sponsoring = \<lparr>sponsoring_username = ''b'', sponsoring_avatar_url = ''v'', total_sponsoring = 1\<rparr>\<rparr>)]
          @ Response False 500 None
          # [Response True 200 (Some \<lparr>total_users = 3, total_sponsorships = 2,
            top_sponsored = \<lparr>sponsored_username = ''a'', sponsored_avatar_url = ''u'', total_sponsors = 2\<rparr>,
            top_sponsoring = \<lparr>sponsoring_username = ''b'', sponsoring_avatar_url = ''v'', total_sponsoring = 1\<rparr>\<rparr>)]))
     = [Fetch, SetTimeout 15000, Fetch]"
proof -
  let ?d = "\<lparr>total_users = 3, total_sponsorships = 2,
        top_sponsored = \<lparr>sponsored_username = ''a'', sponsored_avatar_url = ''u'', total_sponsors = 2\<rparr>,
        top_sponsoring = \<lparr>sponsoring_username = ''b'', sponsoring_avatar_url = ''v'', total_sponsoring = 1\<rparr>\<rparr>"
  have h1: "list_all succeeded [Response True 200 (Some ?d)]"
    by (simp add: succeeded_def)
  have h2: "\<not> succeeded (Response False 500 None :: LeaderboardStatsData fetch_result)"
    by (simp add: succeeded_def)
  from stats_loop_stops [OF h1 h2, of initial_Leaderboard "[Response True 200 (Some ?d)]"] h1 h2
  show ?thesis by simp
qed

end
